theory Spec2Isabelle
  imports Main "HOL-Library.Word"
begin

section \<open>JavaScript values\<close>

text \<open>
  A JavaScript string is a sequence of UTF-16 code units, and \<open>.length\<close> counts
  code units. \<open>js\<close> writes an ASCII literal as such a string.
\<close>

type_synonym code_unit = "16 word"
type_synonym jsstring = "code_unit list"

definition js :: "string \<Rightarrow> jsstring" where
  "js s = map of_char s"

text \<open>
  \<open>String.prototype.trim\<close> removes, at both ends, the code units that ECMAScript
  calls WhiteSpace (TAB, VT, FF, SP, NBSP, ZWNBSP and the space separators) or
  LineTerminator (LF, CR, LS, PS).
\<close>

definition isWhiteSpace :: "code_unit \<Rightarrow> bool" where
  "isWhiteSpace c =
     (c \<in> set [0x9, 0xA, 0xB, 0xC, 0xD, 0x20, 0xA0, 0x1680,
               0x2028, 0x2029, 0x202F, 0x205F, 0x3000, 0xFEFF]
      \<or> (0x2000 \<le> c \<and> c \<le> 0x200A))"

definition trim :: "jsstring \<Rightarrow> jsstring" where
  "trim s = rev (dropWhile isWhiteSpace (rev (dropWhile isWhiteSpace s)))"

text \<open>
  The values a parsed request body can hold. Of a number only its being zero matters
  to the code below (NaN does not arrive through a parsed body). An object is its list
  of properties; a property read takes the first binding of the key.
\<close>

datatype jsval =
    JUndefined
  | JNull
  | JBool bool
  | JNum int
  | JStr jsstring
  | JArr "jsval list"
  | JObj "(jsstring \<times> jsval) list"

text \<open>\<open>!v\<close> is \<open>\<not> truthy v\<close>.\<close>

fun truthy :: "jsval \<Rightarrow> bool" where
  "truthy JUndefined = False"
| "truthy JNull = False"
| "truthy (JBool b) = b"
| "truthy (JNum n) = (n \<noteq> 0)"
| "truthy (JStr s) = (s \<noteq> [])"
| "truthy (JArr xs) = True"
| "truthy (JObj kvs) = True"

fun typeof :: "jsval \<Rightarrow> string" where
  "typeof JUndefined = ''undefined''"
| "typeof JNull = ''object''"
| "typeof (JBool b) = ''boolean''"
| "typeof (JNum n) = ''number''"
| "typeof (JStr s) = ''string''"
| "typeof (JArr xs) = ''object''"
| "typeof (JObj kvs) = ''object''"

definition nullish :: "jsval \<Rightarrow> bool" where
  "nullish v = (v = JUndefined \<or> v = JNull)"

text \<open>
  \<open>get_prop v k\<close> reads the property \<open>k\<close> of a value that is neither undefined nor null,
  for a key that is no built-in property (the code reads \<open>title\<close> and \<open>content\<close>
  only): every value but an object holding the key gives undefined.
\<close>

fun get_prop :: "jsval \<Rightarrow> jsstring \<Rightarrow> jsval" where
  "get_prop (JObj kvs) k = (case map_of kvs k of None \<Rightarrow> JUndefined | Some v \<Rightarrow> v)"
| "get_prop v k = JUndefined"

text \<open>\<open>Object.keys(v).length\<close> for a value that is neither undefined nor null.\<close>

fun Object_keys_length :: "jsval \<Rightarrow> nat" where
  "Object_keys_length (JObj kvs) = length (remdups (map fst kvs))"
| "Object_keys_length (JArr xs) = length xs"
| "Object_keys_length (JStr s) = length s"
| "Object_keys_length v = 0"

section \<open>Errors\<close>

text \<open>
  Every response of the validator and every exception of the service is an error value;
  \<open>message\<close> gives the text the source attaches to it. \<open>TypeError\<close> is the exception
  JavaScript raises when a property of undefined or null is read, or when \<open>.trim\<close> is
  called on a value that is not a string.
\<close>

datatype error =
    EmptyBody
  | InvalidTitle
  | InvalidContent
  | TitleTooLong
  | ContentTooLong
  | Required
  | NoFieldsProvided
  | NotFound
  | TypeError

fun message :: "error \<Rightarrow> string" where
  "message EmptyBody = ''Request body is required''"
| "message InvalidTitle = ''Title is required and must be a non-empty string''"
| "message InvalidContent = ''Content is required and must be a non-empty string''"
| "message TitleTooLong = ''Title must be 200 characters or less''"
| "message ContentTooLong = ''Content must be 5000 characters or less''"
| "message Required = ''Title and content are required''"
| "message NoFieldsProvided = ''At least one field (title or content) must be provided''"
| "message NotFound = ''Note not found''"
| "message TypeError = ''TypeError''"

text \<open>\<open>v.trim()\<close>: the trimmed string, or a TypeError when \<open>v\<close> is not a string.\<close>

fun trim_call :: "jsval \<Rightarrow> error + jsstring" where
  "trim_call (JStr s) = Inr (trim s)"
| "trim_call v = Inl TypeError"

text \<open>\<open>v?.trim()\<close>: undefined (\<open>None\<close>) when \<open>v\<close> is undefined or null.\<close>

fun optional_trim_call :: "jsval \<Rightarrow> error + jsstring option" where
  "optional_trim_call JUndefined = Inr None"
| "optional_trim_call JNull = Inr None"
| "optional_trim_call (JStr s) = Inr (Some (trim s))"
| "optional_trim_call v = Inl TypeError"

section \<open>The validator of the creation path (validateNote)\<close>

definition title_key :: jsstring where
  "title_key = js ''title''"

definition content_key :: jsstring where
  "content_key = js ''content''"

text \<open>
  \<open>!v || typeof v !== 'string' || v.trim().length === 0\<close>. The disjunction is
  evaluated from the left, so \<open>.trim\<close> is reached on strings only.
\<close>

definition invalid_field :: "jsval \<Rightarrow> bool" where
  "invalid_field v =
     (\<not> truthy v \<or> typeof v \<noteq> ''string'' \<or>
      (case trim_call v of Inr t \<Rightarrow> length t = 0 | Inl e \<Rightarrow> True))"

text \<open>
  The middleware destructures the body first (a TypeError on an undefined or null
  body), then runs its five checks in the order of the source; each failing check
  answers at once. \<open>Inr ()\<close> is the call of \<open>next()\<close>.
\<close>

definition validateNote :: "jsval \<Rightarrow> error + unit" where
  "validateNote body =
     (if nullish body then Inl TypeError
      else
        let title = get_prop body title_key; content = get_prop body content_key in
        if \<not> truthy body \<or> Object_keys_length body = 0 then Inl EmptyBody
        else if invalid_field title then Inl InvalidTitle
        else if invalid_field content then Inl InvalidContent
        else
          (case trim_call title of
             Inl e \<Rightarrow> Inl e
           | Inr t \<Rightarrow>
               if length t > 200 then Inl TitleTooLong
               else
                 (case trim_call content of
                    Inl e \<Rightarrow> Inl e
                  | Inr c \<Rightarrow>
                      if length c > 5000 then Inl ContentTooLong
                      else Inr ())))"

section \<open>The Note class\<close>

text \<open>
  A timestamp is a reading of the clock in milliseconds; \<open>toISOString\<close> renders it
  injectively, so two stored timestamps are equal exactly when the readings are.
  The identifier drawn from \<open>uuidv4()\<close> and every reading of \<open>new Date()\<close> are
  arguments of the operation that makes the call.
\<close>

type_synonym timestamp = nat

record Note =
  note_id :: jsstring
  title :: jsstring
  content :: jsstring
  createdAt :: timestamp
  updatedAt :: timestamp

text \<open>The constructor reads the clock twice: \<open>t1\<close> for createdAt, \<open>t2\<close> for updatedAt.\<close>

definition Note_constructor ::
  "jsstring \<Rightarrow> timestamp \<Rightarrow> timestamp \<Rightarrow> jsstring \<Rightarrow> jsstring \<Rightarrow> Note" where
  "Note_constructor uuid t1 t2 ttl cnt =
     \<lparr>note_id = uuid, title = ttl, content = cnt, createdAt = t1, updatedAt = t2\<rparr>"

text \<open>\<open>update(title, content)\<close>: an argument that is not undefined is assigned.\<close>

definition Note_update ::
  "timestamp \<Rightarrow> jsstring option \<Rightarrow> jsstring option \<Rightarrow> Note \<Rightarrow> Note" where
  "Note_update now ttl cnt n =
     (let n1 = (case ttl of Some t \<Rightarrow> n\<lparr>title := t\<rparr> | None \<Rightarrow> n);
          n2 = (case cnt of Some c \<Rightarrow> n1\<lparr>content := c\<rparr> | None \<Rightarrow> n1)
      in n2\<lparr>updatedAt := now\<rparr>)"

definition toJSON :: "Note \<Rightarrow> Note" where
  "toJSON n =
     \<lparr>note_id = note_id n, title = title n, content = content n,
      createdAt = createdAt n, updatedAt = updatedAt n\<rparr>"

section \<open>The service (NotesService)\<close>

text \<open>
  The state is the array \<open>this.notes\<close>. Every operation returns its result, an error
  for a thrown exception, together with the array it leaves behind.
\<close>

type_synonym store = "Note list"

definition createNote ::
  "jsstring \<Rightarrow> timestamp \<Rightarrow> timestamp \<Rightarrow> jsval \<Rightarrow> jsval \<Rightarrow> store \<Rightarrow> (error + Note) \<times> store" where
  "createNote uuid t1 t2 ttl cnt ns =
     (if \<not> truthy ttl \<or> \<not> truthy cnt then (Inl Required, ns)
      else
        (case trim_call ttl of
           Inl e \<Rightarrow> (Inl e, ns)
         | Inr t \<Rightarrow>
             (case trim_call cnt of
                Inl e \<Rightarrow> (Inl e, ns)
              | Inr c \<Rightarrow>
                  let note = Note_constructor uuid t1 t2 t c
                  in (Inr note, ns @ [note]))))"

definition getAllNotes :: "store \<Rightarrow> Note list \<times> store" where
  "getAllNotes ns = (map toJSON ns, ns)"

definition getNoteById :: "jsstring \<Rightarrow> store \<Rightarrow> (error + Note) \<times> store" where
  "getNoteById i ns =
     (case find (\<lambda>note. note_id note = i) ns of
        None \<Rightarrow> (Inl NotFound, ns)
      | Some note \<Rightarrow> (Inr (toJSON note), ns))"

text \<open>
  \<open>note.update\<close> mutates the object that \<open>find\<close> returned, the first one of the array
  with the identifier: \<open>update_first\<close> rewrites that element in its place.
\<close>

fun update_first :: "('a \<Rightarrow> bool) \<Rightarrow> ('a \<Rightarrow> 'a) \<Rightarrow> 'a list \<Rightarrow> 'a list" where
  "update_first P f [] = []"
| "update_first P f (x # xs) = (if P x then f x # xs else x # update_first P f xs)"

definition updateNote ::
  "timestamp \<Rightarrow> jsstring \<Rightarrow> jsval \<Rightarrow> jsval \<Rightarrow> store \<Rightarrow> (error + Note) \<times> store" where
  "updateNote now i ttl cnt ns =
     (case find (\<lambda>note. note_id note = i) ns of
        None \<Rightarrow> (Inl NotFound, ns)
      | Some note \<Rightarrow>
          if \<not> truthy ttl \<and> \<not> truthy cnt then (Inl NoFieldsProvided, ns)
          else
            (case optional_trim_call ttl of
               Inl e \<Rightarrow> (Inl e, ns)
             | Inr t \<Rightarrow>
                 (case optional_trim_call cnt of
                    Inl e \<Rightarrow> (Inl e, ns)
                  | Inr c \<Rightarrow>
                      (Inr (toJSON (Note_update now t c note)),
                       update_first (\<lambda>note. note_id note = i) (Note_update now t c) ns))))"

text \<open>\<open>findIndex\<close> answers \<open>-1\<close> when no element satisfies the predicate.\<close>

fun findIndex :: "('a \<Rightarrow> bool) \<Rightarrow> 'a list \<Rightarrow> int" where
  "findIndex P [] = - 1"
| "findIndex P (x # xs) =
     (if P x then 0
      else (let k = findIndex P xs in if k = - 1 then - 1 else k + 1))"

text \<open>\<open>splice(k, 1)\<close> for an index within the array: the removed element and the rest.\<close>

definition splice1 :: "nat \<Rightarrow> 'a list \<Rightarrow> 'a \<times> 'a list" where
  "splice1 k xs = (xs ! k, take k xs @ drop (Suc k) xs)"

definition deleteNote :: "jsstring \<Rightarrow> store \<Rightarrow> (error + Note) \<times> store" where
  "deleteNote i ns =
     (let noteIndex = findIndex (\<lambda>note. note_id note = i) ns in
      if noteIndex = - 1 then (Inl NotFound, ns)
      else
        (case splice1 (nat noteIndex) ns of
           (deletedNote, ns') \<Rightarrow> (Inr (toJSON deletedNote), ns')))"

definition clearAllNotes :: "store \<Rightarrow> store" where
  "clearAllNotes ns = []"

definition getNotesCount :: "store \<Rightarrow> nat \<times> store" where
  "getNotesCount ns = (length ns, ns)"

section \<open>The routes\<close>

text \<open>
  \<open>POST /notes\<close> runs validateNote and then the handler; \<open>PUT /notes/:id\<close> has no
  validator before its handler. Both handlers destructure the body.
\<close>

definition post_route ::
  "jsstring \<Rightarrow> timestamp \<Rightarrow> timestamp \<Rightarrow> jsval \<Rightarrow> store \<Rightarrow> (error + Note) \<times> store" where
  "post_route uuid t1 t2 body ns =
     (case validateNote body of
        Inl e \<Rightarrow> (Inl e, ns)
      | Inr u \<Rightarrow>
          if nullish body then (Inl TypeError, ns)
          else createNote uuid t1 t2 (get_prop body title_key) (get_prop body content_key) ns)"

definition put_route ::
  "timestamp \<Rightarrow> jsstring \<Rightarrow> jsval \<Rightarrow> store \<Rightarrow> (error + Note) \<times> store" where
  "put_route now i body ns =
     (if nullish body then (Inl TypeError, ns)
      else updateNote now i (get_prop body title_key) (get_prop body content_key) ns)"

section \<open>Runs of the service\<close>

text \<open>
  A request to the service carries what its call reads from the environment: a creation
  the identifier and the two clock readings, an update its clock reading. \<open>exec\<close>
  is the store a request leaves behind, \<open>run\<close> the store after a sequence of them.
\<close>

datatype request =
    CreateNote jsstring timestamp timestamp jsval jsval
  | GetAllNotes
  | GetNoteById jsstring
  | UpdateNote timestamp jsstring jsval jsval
  | DeleteNote jsstring
  | ClearAllNotes
  | GetNotesCount

fun exec :: "request \<Rightarrow> store \<Rightarrow> store" where
  "exec (CreateNote uuid t1 t2 ttl cnt) ns = snd (createNote uuid t1 t2 ttl cnt ns)"
| "exec GetAllNotes ns = snd (getAllNotes ns)"
| "exec (GetNoteById i) ns = snd (getNoteById i ns)"
| "exec (UpdateNote now i ttl cnt) ns = snd (updateNote now i ttl cnt ns)"
| "exec (DeleteNote i) ns = snd (deleteNote i ns)"
| "exec ClearAllNotes ns = clearAllNotes ns"
| "exec GetNotesCount ns = snd (getNotesCount ns)"

fun run :: "request list \<Rightarrow> store \<Rightarrow> store" where
  "run [] ns = ns"
| "run (r # rs) ns = run rs (exec r ns)"

text \<open>\<open>draws r i\<close>: the request takes the identifier \<open>i\<close> from \<open>uuidv4()\<close>.\<close>

fun draws :: "request \<Rightarrow> jsstring \<Rightarrow> bool" where
  "draws (CreateNote uuid t1 t2 ttl cnt) i = (uuid = i)"
| "draws r i = False"

text \<open>
  \<open>uuidv4()\<close> gives identifiers that are unique: in a run with \<open>fresh_uuids\<close>
  no creation draws the identifier of a note that is in the store.
\<close>

fun fresh_uuids :: "request list \<Rightarrow> store \<Rightarrow> bool" where
  "fresh_uuids [] ns = True"
| "fresh_uuids (r # rs) ns =
     ((\<forall>n \<in> set ns. \<not> draws r (note_id n)) \<and> fresh_uuids rs (exec r ns))"

section \<open>Object identity\<close>

text \<open>
  The value-level service above keeps the contents of the array only. Here the Note
  objects live in a memory and \<open>this.notes\<close> holds references to them, so that it is
  visible which object an operation returns: \<open>createNote\<close> returns the reference it
  pushed, the other operations return the reference of a fresh object made by
  \<open>toJSON\<close>. A reference is the index of its object in \<open>objects\<close>.
\<close>

type_synonym ref = nat

record memory =
  objects :: "Note list"
  this_notes :: "ref list"

definition deref :: "memory \<Rightarrow> ref \<Rightarrow> Note" where
  "deref m r = objects m ! r"

definition alloc :: "Note \<Rightarrow> memory \<Rightarrow> ref \<times> memory" where
  "alloc obj m = (length (objects m), m\<lparr>objects := objects m @ [obj]\<rparr>)"

definition toJSON_ref :: "ref \<Rightarrow> memory \<Rightarrow> ref \<times> memory" where
  "toJSON_ref r m = alloc (toJSON (deref m r)) m"

definition createNote_ref ::
  "jsstring \<Rightarrow> timestamp \<Rightarrow> timestamp \<Rightarrow> jsval \<Rightarrow> jsval \<Rightarrow> memory \<Rightarrow> (error + ref) \<times> memory" where
  "createNote_ref uuid t1 t2 ttl cnt m =
     (if \<not> truthy ttl \<or> \<not> truthy cnt then (Inl Required, m)
      else
        (case trim_call ttl of
           Inl e \<Rightarrow> (Inl e, m)
         | Inr t \<Rightarrow>
             (case trim_call cnt of
                Inl e \<Rightarrow> (Inl e, m)
              | Inr c \<Rightarrow>
                  (case alloc (Note_constructor uuid t1 t2 t c) m of
                     (note, m1) \<Rightarrow> (Inr note, m1\<lparr>this_notes := this_notes m1 @ [note]\<rparr>)))))"

fun map_toJSON_ref :: "ref list \<Rightarrow> memory \<Rightarrow> ref list \<times> memory" where
  "map_toJSON_ref [] m = ([], m)"
| "map_toJSON_ref (r # rs) m =
     (case toJSON_ref r m of
        (s, m1) \<Rightarrow> (case map_toJSON_ref rs m1 of (ss, m2) \<Rightarrow> (s # ss, m2)))"

definition getAllNotes_ref :: "memory \<Rightarrow> ref list \<times> memory" where
  "getAllNotes_ref m = map_toJSON_ref (this_notes m) m"

definition getNoteById_ref :: "jsstring \<Rightarrow> memory \<Rightarrow> (error + ref) \<times> memory" where
  "getNoteById_ref i m =
     (case find (\<lambda>note. note_id (deref m note) = i) (this_notes m) of
        None \<Rightarrow> (Inl NotFound, m)
      | Some note \<Rightarrow> (case toJSON_ref note m of (snap, m1) \<Rightarrow> (Inr snap, m1)))"

text \<open>
  \<open>mutate r f\<close> is an assignment to the object behind \<open>r\<close>: what \<open>note.update\<close> does
  inside the service, and what a caller can do with a reference it was given.
\<close>

definition mutate :: "ref \<Rightarrow> (Note \<Rightarrow> Note) \<Rightarrow> memory \<Rightarrow> memory" where
  "mutate r f m = m\<lparr>objects := (objects m)[r := f (deref m r)]\<rparr>"

definition updateNote_ref ::
  "timestamp \<Rightarrow> jsstring \<Rightarrow> jsval \<Rightarrow> jsval \<Rightarrow> memory \<Rightarrow> (error + ref) \<times> memory" where
  "updateNote_ref now i ttl cnt m =
     (case find (\<lambda>note. note_id (deref m note) = i) (this_notes m) of
        None \<Rightarrow> (Inl NotFound, m)
      | Some note \<Rightarrow>
          if \<not> truthy ttl \<and> \<not> truthy cnt then (Inl NoFieldsProvided, m)
          else
            (case optional_trim_call ttl of
               Inl e \<Rightarrow> (Inl e, m)
             | Inr t \<Rightarrow>
                 (case optional_trim_call cnt of
                    Inl e \<Rightarrow> (Inl e, m)
                  | Inr c \<Rightarrow>
                      (case toJSON_ref note (mutate note (Note_update now t c) m) of
                         (snap, m1) \<Rightarrow> (Inr snap, m1)))))"

definition deleteNote_ref :: "jsstring \<Rightarrow> memory \<Rightarrow> (error + ref) \<times> memory" where
  "deleteNote_ref i m =
     (let noteIndex = findIndex (\<lambda>note. note_id (deref m note) = i) (this_notes m) in
      if noteIndex = - 1 then (Inl NotFound, m)
      else
        (case splice1 (nat noteIndex) (this_notes m) of
           (deletedNote, rest) \<Rightarrow>
             (case toJSON_ref deletedNote (m\<lparr>this_notes := rest\<rparr>) of
                (snap, m1) \<Rightarrow> (Inr snap, m1))))"

text \<open>The assignment \<open>note.title = v\<close>.\<close>

definition assign_title :: "jsstring \<Rightarrow> Note \<Rightarrow> Note" where
  "assign_title v n = n\<lparr>title := v\<rparr>"

text \<open>\<open>view\<close> is what the reads of the store observe: the contents of the array.\<close>

definition view :: "memory \<Rightarrow> store" where
  "view m = map (deref m) (this_notes m)"

definition wf_memory :: "memory \<Rightarrow> bool" where
  "wf_memory m = (list_all (\<lambda>r. r < length (objects m)) (this_notes m) \<and> distinct (this_notes m))"

section \<open>The creation checks as the specification words them\<close>

text \<open>
  The specification lists five checks of a creation payload, in a fixed order: the body
  has no key; the title is missing, is not a string or is empty after trimming; the
  same for the content; the trimmed title is longer than 200; the trimmed content is
  longer than 5000. \<open>validate_create_spec\<close> answers the error of the first check of
  this list that fails. It is compared with \<open>validateNote\<close> below.
\<close>

definition spec_empty_body :: "jsval \<Rightarrow> bool" where
  "spec_empty_body body = (Object_keys_length body = 0)"

definition spec_invalid :: "jsval \<Rightarrow> bool" where
  "spec_invalid v = (case v of JStr s \<Rightarrow> trim s = [] | _ \<Rightarrow> True)"

definition spec_too_long :: "nat \<Rightarrow> jsval \<Rightarrow> bool" where
  "spec_too_long n v = (case v of JStr s \<Rightarrow> length (trim s) > n | _ \<Rightarrow> False)"

fun first_failure :: "(bool \<times> error) list \<Rightarrow> error + unit" where
  "first_failure [] = Inr ()"
| "first_failure ((failed, e) # checks) = (if failed then Inl e else first_failure checks)"

definition validate_create_spec :: "jsval \<Rightarrow> error + unit" where
  "validate_create_spec body =
     first_failure
       [(spec_empty_body body, EmptyBody),
        (spec_invalid (get_prop body title_key), InvalidTitle),
        (spec_invalid (get_prop body content_key), InvalidContent),
        (spec_too_long 200 (get_prop body title_key), TitleTooLong),
        (spec_too_long 5000 (get_prop body content_key), ContentTooLong)]"

section \<open>Basic facts\<close>

lemma toJSON_id [simp]: "toJSON n = n"
  by (simp add: toJSON_def)


lemma keys_ne [simp]: "title_key \<noteq> content_key" "content_key \<noteq> title_key"
  by (simp_all add: title_key_def content_key_def js_def)

lemma invalid_field_iff: "invalid_field v = (case v of JStr s \<Rightarrow> trim s = [] | _ \<Rightarrow> True)"
  by (cases v) (auto simp: invalid_field_def trim_def)

lemma invalid_field_JStr [simp]: "invalid_field (JStr s) = (trim s = [])"
  by (simp add: invalid_field_iff)

lemma get_prop_keys_pos:
  "get_prop body k = JStr s \<Longrightarrow> \<not> nullish body \<and> truthy body \<and> Object_keys_length body \<noteq> 0"
  by (cases body) (auto simp: nullish_def split: option.splits)

lemma validateNote_strings:
  assumes "get_prop body title_key = JStr t" and "get_prop body content_key = JStr c"
  shows "validateNote body =
    (if trim t = [] then Inl InvalidTitle
     else if trim c = [] then Inl InvalidContent
     else if length (trim t) > 200 then Inl TitleTooLong
     else if length (trim c) > 5000 then Inl ContentTooLong
     else Inr ())"
  using assms get_prop_keys_pos[OF assms(1)]
  by (simp add: validateNote_def)

lemma trim_replicate [simp]: "\<not> isWhiteSpace x \<Longrightarrow> trim (replicate n x) = replicate n x"
  by (simp add: trim_def)

lemma letter_a_not_space [simp]: "\<not> isWhiteSpace 0x61"
  by (simp add: isWhiteSpace_def)

lemma falsy_no_keys: "\<not> nullish body \<Longrightarrow> \<not> truthy body \<Longrightarrow> Object_keys_length body = 0"
  by (cases body) (simp_all add: nullish_def)

lemma field_checks_first_failure:
  "(if invalid_field t then Inl InvalidTitle
    else if invalid_field c then Inl InvalidContent
    else
      (case trim_call t of
         Inl e \<Rightarrow> Inl e
       | Inr a \<Rightarrow>
           if length a > 200 then Inl TitleTooLong
           else
             (case trim_call c of
                Inl e \<Rightarrow> Inl e
              | Inr b \<Rightarrow> if length b > 5000 then Inl ContentTooLong else Inr ())))
   = first_failure
       [(spec_invalid t, InvalidTitle), (spec_invalid c, InvalidContent),
        (spec_too_long 200 t, TitleTooLong), (spec_too_long 5000 c, ContentTooLong)]"
  by (cases t; cases c) (simp_all add: invalid_field_iff spec_invalid_def spec_too_long_def)

section \<open>Lists, lookups and the store\<close>

lemma findIndex_ge: "- 1 \<le> findIndex P xs"
  by (induction xs) (auto simp: Let_def)

lemma findIndex_none: "(findIndex P xs = - 1) = (\<forall>x \<in> set xs. \<not> P x)"
proof (induction xs)
  case Nil
  show ?case by simp
next
  case (Cons x xs)
  have "- 1 \<le> findIndex P xs" by (rule findIndex_ge)
  with Cons show ?case by (auto simp: Let_def)
qed

lemma find_none_ids: "(find (\<lambda>note. note_id note = i) ns = None) = (\<forall>n \<in> set ns. note_id n \<noteq> i)"
  by (auto simp: find_None_iff)

lemma findIndex_Cons_miss:
  "\<not> P x \<Longrightarrow> findIndex P xs \<noteq> - 1 \<Longrightarrow> nat (findIndex P (x # xs)) = Suc (nat (findIndex P xs))"
proof -
  assume a: "\<not> P x" "findIndex P xs \<noteq> - 1"
  have "- 1 \<le> findIndex P xs" by (rule findIndex_ge)
  with a(2) have "nat (findIndex P xs + 1) = Suc (nat (findIndex P xs))" by arith
  moreover from a have "findIndex P (x # xs) = findIndex P xs + 1" by (simp add: Let_def)
  ultimately show ?thesis by (simp only:)
qed

lemma splice1_Cons_Suc: "snd (splice1 (Suc k) (x # xs)) = x # snd (splice1 k xs)"
  by (simp add: splice1_def)

lemma ball_Cons_neq: "f x \<noteq> i \<Longrightarrow> \<forall>y \<in> set S. f y \<noteq> i \<Longrightarrow> \<forall>y \<in> set (x # S). f y \<noteq> i"
  by simp

lemma splice1_after_findIndex:
  "distinct (map f xs) \<Longrightarrow> findIndex (\<lambda>x. f x = i) xs \<noteq> - 1 \<Longrightarrow>
   \<forall>x \<in> set (snd (splice1 (nat (findIndex (\<lambda>x. f x = i) xs)) xs)). f x \<noteq> i"
proof (induction xs)
  case Nil
  then show ?case by simp
next
  case (Cons x xs)
  show ?case
  proof (cases "f x = i")
    case True
    then have eq: "snd (splice1 (nat (findIndex (\<lambda>x. f x = i) (x # xs))) (x # xs)) = xs"
      by (simp add: splice1_def)
    have "\<forall>y \<in> set xs. f y \<noteq> i"
    proof
      fix y
      assume "y \<in> set xs"
      then have "f y \<in> f ` set xs" by (rule imageI)
      moreover from Cons.prems(1) have "f x \<notin> f ` set xs" by simp
      ultimately have "f y \<noteq> f x" by metis
      with True show "f y \<noteq> i" by simp
    qed
    then show ?thesis unfolding eq .
  next
    case False
    let ?k = "findIndex (\<lambda>x. f x = i) xs"
    from False Cons.prems(2) have k: "?k \<noteq> - 1" by (auto simp: Let_def)
    from Cons.prems(1) have "distinct (map f xs)" by simp
    then have ih: "\<forall>x \<in> set (snd (splice1 (nat ?k) xs)). f x \<noteq> i"
      using k by (rule Cons.IH)
    have eq: "snd (splice1 (nat (findIndex (\<lambda>x. f x = i) (x # xs))) (x # xs))
        = x # snd (splice1 (nat ?k) xs)"
      using findIndex_Cons_miss [of "\<lambda>x. f x = i" x xs, OF False k]
      by (simp only: splice1_Cons_Suc)
    show ?thesis unfolding eq by (rule ball_Cons_neq [OF False ih])
  qed
qed

lemma splice1_subset: "set (snd (splice1 k xs)) \<subseteq> set xs"
  by (auto simp: splice1_def dest: in_set_takeD in_set_dropD)

lemma deleteNote_store_subset: "set (snd (deleteNote i ns)) \<subseteq> set ns"
  using splice1_subset [of "nat (findIndex (\<lambda>note. note_id note = i) ns)" ns]
  by (auto simp: deleteNote_def Let_def split: prod.splits)

lemma note_id_Note_update [simp]: "note_id (Note_update now t c n) = note_id n"
  by (simp add: Note_update_def Let_def split: option.splits)

lemma createdAt_Note_update [simp]: "createdAt (Note_update now t c n) = createdAt n"
  by (simp add: Note_update_def Let_def split: option.splits)

lemma updatedAt_Note_update [simp]: "updatedAt (Note_update now t c n) = now"
  by (simp add: Note_update_def Let_def split: option.splits)

lemma title_Note_update [simp]:
  "title (Note_update now t c n) = (case t of Some x \<Rightarrow> x | None \<Rightarrow> title n)"
  by (simp add: Note_update_def Let_def split: option.splits)

lemma content_Note_update [simp]:
  "content (Note_update now t c n) = (case c of Some x \<Rightarrow> x | None \<Rightarrow> content n)"
  by (simp add: Note_update_def Let_def split: option.splits)

lemma map_note_id_update_first:
  "(\<And>x. g (f x) = g x) \<Longrightarrow> map g (update_first P f xs) = map g xs"
  by (induction xs) auto

lemma length_update_first [simp]: "length (update_first P f xs) = length xs"
  by (induction xs) auto

lemma find_update_first:
  "find P xs = Some x \<Longrightarrow> P (f x) \<Longrightarrow> find P (update_first P f xs) = Some (f x)"
  by (induction xs) (auto split: if_splits)

lemma nth_update_first:
  "k < length xs \<Longrightarrow> \<not> P (xs ! k) \<Longrightarrow> update_first P f xs ! k = xs ! k"
proof (induction xs arbitrary: k)
  case Nil
  then show ?case by simp
next
  case (Cons x xs)
  then show ?case by (cases k) auto
qed

lemma updateNote_ids: "map note_id (snd (updateNote now i ttl cnt ns)) = map note_id ns"
  by (auto simp: updateNote_def map_note_id_update_first split: option.splits sum.splits)

lemma exec_keeps_absent:
  assumes "\<forall>n \<in> set ns. note_id n \<noteq> i" and "\<not> draws r i"
  shows "\<forall>n \<in> set (exec r ns). note_id n \<noteq> i"
proof (cases r)
  case (CreateNote uuid t1 t2 ttl cnt)
  with assms show ?thesis
    by (auto simp: createNote_def Note_constructor_def Let_def split: sum.splits)
next
  case (UpdateNote now j ttl cnt)
  have "note_id ` set (exec r ns) = note_id ` set ns"
    using updateNote_ids [of now j ttl cnt ns] UpdateNote
    by (metis exec.simps(4) set_map)
  with assms show ?thesis by (metis image_iff)
next
  case (DeleteNote j)
  with assms deleteNote_store_subset [of j ns] show ?thesis by auto
qed (use assms in \<open>simp_all add: getAllNotes_def getNoteById_def clearAllNotes_def getNotesCount_def split: option.splits\<close>)

lemma run_keeps_absent:
  "\<forall>n \<in> set ns. note_id n \<noteq> i \<Longrightarrow> \<forall>r \<in> set rs. \<not> draws r i \<Longrightarrow>
   \<forall>n \<in> set (run rs ns). note_id n \<noteq> i"
proof (induction rs arbitrary: ns)
  case Nil
  then show ?case by simp
next
  case (Cons r rs)
  from Cons.prems have "\<forall>n \<in> set (exec r ns). note_id n \<noteq> i"
    using exec_keeps_absent [of ns i r] by simp
  with Cons.IH Cons.prems(2) show ?case by simp
qed


lemma find_Some_exists:
  "\<exists>n \<in> set ns. note_id n = i \<Longrightarrow> \<exists>old. find (\<lambda>note. note_id note = i) ns = Some old"
  by (induction ns) auto

lemma optional_trim_call_case:
  "optional_trim_call v = Inr t \<Longrightarrow>
   (case t of Some x \<Rightarrow> x | None \<Rightarrow> d) = (case v of JStr s \<Rightarrow> trim s | _ \<Rightarrow> d)"
  by (cases v) auto

lemma updateNote_Inr:
  assumes "find (\<lambda>note. note_id note = i) ns = Some old"
    and "updateNote now i ttl cnt ns = (Inr snap, ns')"
  shows "\<exists>t c. optional_trim_call ttl = Inr t \<and> optional_trim_call cnt = Inr c
           \<and> snap = Note_update now t c old
           \<and> ns' = update_first (\<lambda>note. note_id note = i) (Note_update now t c) ns"
  using assms
  by (simp add: updateNote_def split: if_splits sum.splits)

lemma js_simps [simp]: "js [] = []" "js (c # cs) = of_char c # js cs"
  by (simp_all add: js_def)

lemma exec_ids_distinct:
  assumes "distinct (map note_id ns)" and "\<forall>n \<in> set ns. \<not> draws r (note_id n)"
  shows "distinct (map note_id (exec r ns))"
proof (cases r)
  case (CreateNote uuid t1 t2 ttl cnt)
  from assms(2) have "uuid \<notin> set (map note_id ns)"
    unfolding CreateNote by auto
  with assms(1) show ?thesis
    unfolding CreateNote
    by (simp add: createNote_def Note_constructor_def Let_def split: sum.splits)
next
  case (UpdateNote now j ttl cnt)
  with assms(1) show ?thesis by (simp add: updateNote_ids)
next
  case (DeleteNote j)
  have "snd (deleteNote j ns) = ns \<or>
        snd (deleteNote j ns) = snd (splice1 (nat (findIndex (\<lambda>note. note_id note = j) ns)) ns)"
    by (simp add: deleteNote_def Let_def split: prod.splits)
  moreover have "distinct (map note_id (snd (splice1 k ns)))" for k
    using assms(1) distinct_take [of "map note_id ns" k] distinct_drop [of "map note_id ns" "Suc k"]
      set_take_disj_set_drop_if_distinct [of "map note_id ns" k "Suc k"]
    by (simp add: splice1_def take_map drop_map)
  ultimately show ?thesis
    unfolding DeleteNote using assms(1) by auto
qed (use assms(1) in \<open>simp_all add: getAllNotes_def getNoteById_def clearAllNotes_def getNotesCount_def split: option.splits\<close>)

lemma run_ids_distinct:
  "distinct (map note_id ns) \<Longrightarrow> fresh_uuids rs ns \<Longrightarrow> distinct (map note_id (run rs ns))"
proof (induction rs arbitrary: ns)
  case Nil
  then show ?case by simp
next
  case (Cons r rs)
  from Cons.prems have "distinct (map note_id (exec r ns))"
    using exec_ids_distinct [of ns r] by simp
  with Cons.IH Cons.prems(2) show ?case by simp
qed

lemma find_append_miss: "find P xs = None \<Longrightarrow> find P (xs @ ys) = find P ys"
  by (induction xs) (auto split: if_splits)

lemma createNote_then_get:
  assumes "trim t \<noteq> []" and "trim c \<noteq> []" and "\<forall>n \<in> set ns. note_id n \<noteq> uuid"
  shows "\<exists>n ns'. createNote uuid t1 t2 (JStr t) (JStr c) ns = (Inr n, ns')
           \<and> getNoteById uuid ns' = (Inr n, ns')
           \<and> title n = trim t \<and> content n = trim c
           \<and> createdAt n = t1 \<and> updatedAt n = t2"
proof -
  from assms(1,2) have "t \<noteq> []" "c \<noteq> []"
    by (auto simp: trim_def)
  moreover from assms(3) have "find (\<lambda>note. note_id note = uuid) ns = None"
    by (rule find_none_ids [THEN iffD2])
  ultimately show ?thesis
    by (simp add: createNote_def getNoteById_def Note_constructor_def find_append_miss Let_def)
qed




section \<open>The service on references refines the service on values\<close>

lemma view_alloc: "wf_memory m \<Longrightarrow> view (snd (alloc obj m)) = view m"
  by (auto simp: view_def alloc_def deref_def wf_memory_def list_all_iff nth_append)

lemma view_mutate_other:
  assumes "r \<notin> set (this_notes m)"
  shows "view (mutate r f m) = view m"
proof -
  have "deref (mutate r f m) x = deref m x" if "x \<in> set (this_notes m)" for x
  proof -
    from that assms have "r \<noteq> x" by metis
    then show ?thesis by (simp add: mutate_def deref_def)
  qed
  moreover have "this_notes (mutate r f m) = this_notes m"
    by (simp add: mutate_def)
  ultimately show ?thesis
    by (simp add: view_def)
qed

lemma alloc_fresh:
  assumes "wf_memory m" and "alloc obj m = (s, m')"
  shows "s \<notin> set (this_notes m')" and "view m' = view m" and "wf_memory m'"
    and "this_notes m' = this_notes m" and "deref m' s = obj"
proof -
  from assms(2) have s: "s = length (objects m)" and m': "m' = m\<lparr>objects := objects m @ [obj]\<rparr>"
    by (simp_all add: alloc_def)
  from assms(1) have bound: "\<And>r. r \<in> set (this_notes m) \<Longrightarrow> r < length (objects m)"
    by (simp add: wf_memory_def list_all_iff)
  show n: "this_notes m' = this_notes m" by (simp add: m')
  from bound [of s] show "s \<notin> set (this_notes m')" by (auto simp: m' s)
  from view_alloc [OF assms(1), of obj] assms(2) show "view m' = view m" by simp
  from assms(1) bound show "wf_memory m'"
    by (auto simp: wf_memory_def list_all_iff m' less_SucI)
  show "deref m' s = obj" by (simp add: deref_def m' s)
qed

lemma find_map_comp: "find P (map f xs) = map_option f (find (\<lambda>x. P (f x)) xs)"
  by (induction xs) auto

lemma findIndex_map_comp: "findIndex P (map f xs) = findIndex (\<lambda>x. P (f x)) xs"
  by (induction xs) auto

lemma findIndex_lt: "findIndex P xs < int (length xs)"
  by (induction xs) (auto simp: Let_def)

lemma findIndex_nat_lt: "findIndex P xs \<noteq> - 1 \<Longrightarrow> nat (findIndex P xs) < length xs"
  using findIndex_lt [of P xs] findIndex_ge [of P xs] by arith

lemma splice1_map: "k < length xs \<Longrightarrow> splice1 k (map f xs) = (f (xs ! k), map f (snd (splice1 k xs)))"
  by (simp add: splice1_def take_map drop_map)

lemma distinct_splice1: "distinct xs \<Longrightarrow> distinct (snd (splice1 k xs))"
  using set_take_disj_set_drop_if_distinct [of xs k "Suc k"] by (simp add: splice1_def)

lemma deref_this_notes_update [simp]: "deref (m\<lparr>this_notes := rs\<rparr>) = deref m"
  by (rule ext) (simp add: deref_def)

lemma wf_memoryD: "wf_memory m \<Longrightarrow> r \<in> set (this_notes m) \<Longrightarrow> r < length (objects m)"
  by (simp add: wf_memory_def list_all_iff)

lemma createNote_ref_refines:
  assumes "wf_memory m" and "createNote_ref uuid t1 t2 ttl cnt m = (res, m')"
  shows "createNote uuid t1 t2 ttl cnt (view m) = (map_sum id (deref m') res, view m') \<and> wf_memory m'"
proof (cases "\<not> truthy ttl \<or> \<not> truthy cnt \<or> trim_call ttl = Inl TypeError \<or> trim_call cnt = Inl TypeError")
  case True
  with assms show ?thesis
    by (cases ttl; cases cnt) (auto simp: createNote_ref_def createNote_def)
next
  case False
  then obtain t c where tc: "truthy ttl" "truthy cnt" "trim_call ttl = Inr t" "trim_call cnt = Inr c"
    by (cases ttl; cases cnt) auto
  obtain s m1 where al: "alloc (Note_constructor uuid t1 t2 t c) m = (s, m1)"
    by (cases "alloc (Note_constructor uuid t1 t2 t c) m") auto
  with assms(2) tc have res: "res = Inr s" and m': "m' = m1\<lparr>this_notes := this_notes m1 @ [s]\<rparr>"
    by (simp_all add: createNote_ref_def)
  note fr = alloc_fresh [OF assms(1) al]
  have "view m' = view m1 @ [deref m1 s]"
    by (simp add: m' view_def)
  with fr(2,5) have v: "view m' = view m @ [Note_constructor uuid t1 t2 t c]" by simp
  from al have "s < length (objects m1)" by (auto simp: alloc_def)
  with fr(1,3) have "wf_memory m'"
    by (simp add: wf_memory_def m')
  moreover have "deref m' s = Note_constructor uuid t1 t2 t c"
    using fr(5) by (simp add: m')
  ultimately show ?thesis
    using tc v by (simp add: createNote_def res Let_def)
qed

lemma getNoteById_ref_refines:
  assumes "wf_memory m" and "getNoteById_ref i m = (res, m')"
  shows "getNoteById i (view m) = (map_sum id (deref m') res, view m') \<and> wf_memory m'
       \<and> (\<forall>s. res = Inr s \<longrightarrow> s \<notin> set (this_notes m'))"
proof (cases "find (\<lambda>note. note_id (deref m note) = i) (this_notes m)")
  case None
  with assms show ?thesis
    by (auto simp: getNoteById_ref_def getNoteById_def view_def find_map_comp)
next
  case (Some r)
  obtain s m1 where al: "alloc (toJSON (deref m r)) m = (s, m1)"
    by (cases "alloc (toJSON (deref m r)) m") auto
  with assms(2) Some have res: "res = Inr s" "m' = m1"
    by (simp_all add: getNoteById_ref_def toJSON_ref_def)
  note fr = alloc_fresh [OF assms(1) al]
  from Some have "find (\<lambda>note. note_id note = i) (view m) = Some (deref m r)"
    by (simp add: view_def find_map_comp)
  with fr(1,2,3,5) show ?thesis
    by (simp add: getNoteById_def res)
qed

lemma deleteNote_ref_refines:
  assumes "wf_memory m" and "deleteNote_ref i m = (res, m')"
  shows "deleteNote i (view m) = (map_sum id (deref m') res, view m') \<and> wf_memory m'
       \<and> (\<forall>s. res = Inr s \<longrightarrow> s \<notin> set (this_notes m'))"
proof (cases "findIndex (\<lambda>note. note_id (deref m note) = i) (this_notes m) = - 1")
  case True
  with assms show ?thesis
    by (auto simp: deleteNote_ref_def deleteNote_def view_def findIndex_map_comp)
next
  case False
  define k where "k = nat (findIndex (\<lambda>note. note_id (deref m note) = i) (this_notes m))"
  obtain r rest where sp: "splice1 k (this_notes m) = (r, rest)"
    by (cases "splice1 k (this_notes m)") auto
  from False have klt: "k < length (this_notes m)"
    unfolding k_def by (rule findIndex_nat_lt)
  define m0 where "m0 = m\<lparr>this_notes := rest\<rparr>"
  from sp have rest: "rest = snd (splice1 k (this_notes m))" by simp
  from assms(1) have "distinct rest"
    unfolding rest by (simp add: wf_memory_def distinct_splice1)
  moreover from assms(1) have "\<forall>x \<in> set rest. x < length (objects m)"
    unfolding rest using splice1_subset [of k "this_notes m"]
    by (auto simp: wf_memory_def list_all_iff)
  ultimately have wf0: "wf_memory m0"
    by (simp add: wf_memory_def list_all_iff m0_def)
  obtain s m1 where al: "alloc (toJSON (deref m0 r)) m0 = (s, m1)"
    by (cases "alloc (toJSON (deref m0 r)) m0") auto
  from assms(2) False have "(case splice1 k (this_notes m) of
        (deletedNote, rest) \<Rightarrow>
          (case toJSON_ref deletedNote (m\<lparr>this_notes := rest\<rparr>) of
             (snap, m1) \<Rightarrow> (Inr snap, m1))) = (res, m')"
    by (simp add: deleteNote_ref_def Let_def k_def)
  with al have res: "res = Inr s" "m' = m1"
    by (simp_all add: sp toJSON_ref_def m0_def)
  note fr = alloc_fresh [OF wf0 al]
  from sp have r: "r = this_notes m ! k" by (simp add: splice1_def)
  have "view m0 = map (deref m) rest"
    by (simp add: view_def m0_def)
  with splice1_map [OF klt, of "deref m"]
  have spv: "splice1 k (view m) = (deref m r, view m0)"
    by (simp add: view_def r rest)
  have "deleteNote i (view m) = (Inr (toJSON (deref m r)), view m0)"
    using False by (simp add: deleteNote_def view_def findIndex_map_comp Let_def
        k_def [symmetric] spv [unfolded view_def])
  with fr(1,2,3,5) show ?thesis
    by (simp add: res m0_def)
qed

lemma deref_mutate:
  "deref (mutate r g m) x = (if x = r \<and> r < length (objects m) then g (deref m r) else deref m x)"
proof (cases "r < length (objects m)")
  case True
  then show ?thesis by (simp add: mutate_def deref_def nth_list_update)
next
  case False
  then have "(objects m)[r := g (deref m r)] = objects m"
    by (simp add: list_update_beyond not_less)
  with False show ?thesis by (simp add: mutate_def deref_def)
qed

lemma find_Some_set: "find Q xs = Some x \<Longrightarrow> x \<in> set xs \<and> Q x"
  by (induction xs) (auto split: if_splits)

lemma map_deref_mutate_other:
  "r \<notin> set rs \<Longrightarrow> map (deref (mutate r g m)) rs = map (deref m) rs"
  by (induction rs) (auto simp: deref_mutate)

lemma view_mutate_first:
  assumes "distinct rs" and "\<forall>x \<in> set rs. x < length (objects m)"
    and "find (\<lambda>x. P (deref m x)) rs = Some r"
  shows "map (deref (mutate r g m)) rs = update_first P g (map (deref m) rs)"
  using assms
proof (induction rs)
  case Nil
  then show ?case by simp
next
  case (Cons x rs)
  show ?case
  proof (cases "P (deref m x)")
    case True
    with Cons.prems(3) have rx: "r = x" by simp
    from Cons.prems(1) have "x \<notin> set rs" by simp
    then have "map (deref (mutate x g m)) rs = map (deref m) rs"
      by (rule map_deref_mutate_other)
    moreover from Cons.prems(2) have "deref (mutate x g m) x = g (deref m x)"
      by (simp add: deref_mutate)
    ultimately show ?thesis
      using True by (simp add: rx)
  next
    case False
    with Cons.prems(3) have f: "find (\<lambda>x. P (deref m x)) rs = Some r" by simp
    then have "r \<in> set rs" using find_Some_set by metis
    with Cons.prems(1) have "x \<noteq> r" by auto
    then have "deref (mutate r g m) x = deref m x"
      by (simp add: deref_mutate)
    moreover from Cons.prems(1,2) f
    have "map (deref (mutate r g m)) rs = update_first P g (map (deref m) rs)"
      by (intro Cons.IH) simp_all
    ultimately show ?thesis
      using False by simp
  qed
qed

lemma wf_memory_mutate: "wf_memory (mutate r g m) = wf_memory m"
  by (simp add: wf_memory_def mutate_def)

lemma updateNote_ref_refines:
  assumes "wf_memory m" and "updateNote_ref now i ttl cnt m = (res, m')"
  shows "updateNote now i ttl cnt (view m) = (map_sum id (deref m') res, view m') \<and> wf_memory m'
       \<and> (\<forall>s. res = Inr s \<longrightarrow> s \<notin> set (this_notes m'))"
proof (cases "find (\<lambda>note. note_id (deref m note) = i) (this_notes m)")
  case None
  with assms show ?thesis
    by (auto simp: updateNote_ref_def updateNote_def view_def find_map_comp)
next
  case (Some r)
  then have fv: "find (\<lambda>note. note_id note = i) (view m) = Some (deref m r)"
    by (simp add: view_def find_map_comp)
  show ?thesis
  proof (cases "(\<not> truthy ttl \<and> \<not> truthy cnt) \<or> (\<exists>e. optional_trim_call ttl = Inl e)
                 \<or> (\<exists>e. optional_trim_call cnt = Inl e)")
    case True
    with assms Some fv show ?thesis
      by (auto simp: updateNote_ref_def updateNote_def split: sum.splits)
  next
    case False
    then obtain t c where tc: "optional_trim_call ttl = Inr t" "optional_trim_call cnt = Inr c"
      and guard: "\<not> (\<not> truthy ttl \<and> \<not> truthy cnt)"
      by (cases "optional_trim_call ttl"; cases "optional_trim_call cnt") auto
    define g where "g = Note_update now t c"
    define m2 where "m2 = mutate r g m"
    obtain s m1 where al: "alloc (toJSON (deref m2 r)) m2 = (s, m1)"
      by (cases "alloc (toJSON (deref m2 r)) m2") auto
    from assms(2) Some tc guard al have res: "res = Inr s" "m' = m1"
      by (simp_all add: updateNote_ref_def toJSON_ref_def g_def m2_def)
    from assms(1) have wf2: "wf_memory m2"
      by (simp add: m2_def wf_memory_mutate)
    note fr = alloc_fresh [OF wf2 al]
    from Some have "r \<in> set (this_notes m)" using find_Some_set by metis
    with assms(1) have rlt: "r < length (objects m)" by (rule wf_memoryD)
    then have d: "deref m2 r = g (deref m r)"
      by (simp add: m2_def deref_mutate)
    from assms(1) have "distinct (this_notes m)" "\<forall>x \<in> set (this_notes m). x < length (objects m)"
      by (simp_all add: wf_memory_def list_all_iff)
    from view_mutate_first [OF this, of "\<lambda>n. note_id n = i" r g] Some
    have v: "view m2 = update_first (\<lambda>note. note_id note = i) g (view m)"
      by (simp add: view_def m2_def mutate_def)
    have "updateNote now i ttl cnt (view m) = (Inr (toJSON (g (deref m r))), view m2)"
      using guard tc unfolding updateNote_def fv v g_def by auto
    with fr(1,2,3,5) d show ?thesis
      by (simp add: res)
  qed
qed

lemma map_toJSON_ref_refines:
  assumes "wf_memory m" and "\<forall>r \<in> set rs. r < length (objects m)"
    and "map_toJSON_ref rs m = (ss, m')"
  shows "map (deref m') ss = map (deref m) rs \<and> view m' = view m \<and> wf_memory m'
       \<and> this_notes m' = this_notes m
       \<and> (\<forall>s \<in> set ss. s \<notin> set (this_notes m'))
       \<and> (\<forall>x < length (objects m). x < length (objects m') \<and> deref m' x = deref m x)"
  using assms
proof (induction rs arbitrary: m ss m')
  case Nil
  then show ?case by simp
next
  case (Cons r rs)
  obtain s m1 where al: "alloc (toJSON (deref m r)) m = (s, m1)"
    by (cases "alloc (toJSON (deref m r)) m") auto
  obtain ss1 m2 where rec: "map_toJSON_ref rs m1 = (ss1, m2)"
    by (cases "map_toJSON_ref rs m1") auto
  from Cons.prems(3) al rec have ss: "ss = s # ss1" and m': "m' = m2"
    by (simp_all add: toJSON_ref_def)
  note fr = alloc_fresh [OF Cons.prems(1) al]
  from al have s: "s = length (objects m)" and m1: "m1 = m\<lparr>objects := objects m @ [toJSON (deref m r)]\<rparr>"
    by (simp_all add: alloc_def)
  have keep: "\<forall>x < length (objects m). x < length (objects m1) \<and> deref m1 x = deref m x"
    by (simp add: m1 deref_def nth_append)
  from Cons.prems(2) keep have bound1: "\<forall>r \<in> set rs. r < length (objects m1)" by simp
  note ih = Cons.IH [OF fr(3) bound1 rec]
  have slt: "s < length (objects m1)" by (simp add: s m1)
  from ih slt fr(5) have ds: "deref m2 s = toJSON (deref m r)" by simp
  from Cons.prems(2) keep have "map (deref m1) (r # rs) = map (deref m) (r # rs)" by simp
  with ih ds have "map (deref m') ss = map (deref m) (r # rs)"
    by (simp add: ss m')
  moreover from ih fr(2) have "view m' = view m" by (simp add: m')
  moreover from ih have "wf_memory m'" by (simp add: m')
  moreover from ih fr(4) have "this_notes m' = this_notes m" by (simp add: m')
  moreover from ih fr(1) have "\<forall>x \<in> set ss. x \<notin> set (this_notes m')"
    by (auto simp: ss m')
  moreover from ih keep have "\<forall>x < length (objects m). x < length (objects m') \<and> deref m' x = deref m x"
    by (simp add: m')
  ultimately show ?case by (simp only: simp_thms)
qed

lemma map_toJSON [simp]: "map toJSON ns = ns"
  by (induction ns) simp_all

lemma getAllNotes_ref_refines:
  assumes "wf_memory m" and "getAllNotes_ref m = (ss, m')"
  shows "getAllNotes (view m) = (map (deref m') ss, view m') \<and> wf_memory m'
       \<and> (\<forall>s \<in> set ss. s \<notin> set (this_notes m'))"
proof -
  from assms(1) have "\<forall>r \<in> set (this_notes m). r < length (objects m)"
    by (simp add: wf_memory_def list_all_iff)
  moreover from assms(2) have "map_toJSON_ref (this_notes m) m = (ss, m')"
    by (simp add: getAllNotes_ref_def)
  ultimately have r: "map (deref m') ss = map (deref m) (this_notes m) \<and> view m' = view m
       \<and> wf_memory m' \<and> this_notes m' = this_notes m
       \<and> (\<forall>s \<in> set ss. s \<notin> set (this_notes m'))
       \<and> (\<forall>x < length (objects m). x < length (objects m') \<and> deref m' x = deref m x)"
    by (rule map_toJSON_ref_refines [OF assms(1)])
  from r have "map (deref m') ss = map (deref m) (this_notes m)"
    by (rule conjunct1)
  then have "map (deref m') ss = view m"
    by (simp only: view_def)
  moreover from r have "view m' = view m"
    by (rule conjunct2 [THEN conjunct1])
  ultimately have "getAllNotes (view m) = (map (deref m') ss, view m')"
    by (simp add: getAllNotes_def)
  with r show ?thesis by auto
qed

lemma returned_snapshot_decoupled:
  assumes "wf_memory m"
    and "getNoteById_ref i m = (Inr s, m') \<or> updateNote_ref now i ttl cnt m = (Inr s, m')
         \<or> deleteNote_ref i m = (Inr s, m')
         \<or> (\<exists>ss. getAllNotes_ref m = (ss, m') \<and> s \<in> set ss)"
  shows "view (mutate s f m') = view m'"
proof -
  from assms(2) getNoteById_ref_refines [OF assms(1), of i "Inr s" m']
    updateNote_ref_refines [OF assms(1), of now i ttl cnt "Inr s" m']
    deleteNote_ref_refines [OF assms(1), of i "Inr s" m']
    getAllNotes_ref_refines [OF assms(1), of _ m']
  have "s \<notin> set (this_notes m')"
    by auto
  then show ?thesis by (rule view_mutate_other)
qed

section \<open>The creation validator\<close>

text \<open>
  Claim C6. For every creation payload the validator runs its checks in the fixed order
  empty body, title, content, title length, content length, and the first failing check
  determines the answer: on every body that can be destructured, \<open>validateNote\<close>
  is the first failure of the specification's ordered list. In particular no later
  check is evaluated on a value an earlier check refused (no TypeError arises), and a
  payload with an invalid title and an over-long content fails with the title error.
\<close>

theorem validateNote_check_order:
  assumes "\<not> nullish body"
  shows "validateNote body = validate_create_spec body"
proof (cases "Object_keys_length body = 0")
  case True
  with assms show ?thesis
    by (simp add: validateNote_def validate_create_spec_def spec_empty_body_def)
next
  case False
  have tb: "truthy body"
  proof (rule ccontr)
    assume "\<not> truthy body"
    then have "Object_keys_length body = 0"
      by (rule falsy_no_keys [OF assms])
    with False show False by simp
  qed
  with assms False have "validateNote body =
      first_failure
       [(spec_invalid (get_prop body title_key), InvalidTitle),
        (spec_invalid (get_prop body content_key), InvalidContent),
        (spec_too_long 200 (get_prop body title_key), TitleTooLong),
        (spec_too_long 5000 (get_prop body content_key), ContentTooLong)]"
    unfolding validateNote_def Let_def
    by (simp only: if_False simp_thms field_checks_first_failure)
  with False show ?thesis
    by (simp add: validate_create_spec_def spec_empty_body_def)
qed


theorem validateNote_check_order_witness:
  "validateNote (JObj [(title_key, JNum 5), (content_key, JStr (replicate 5001 0x61))]) = Inl InvalidTitle"
  using validateNote_check_order [of "JObj [(title_key, JNum 5), (content_key, JStr (replicate 5001 0x61))]"]
  by (simp add: nullish_def validate_create_spec_def spec_empty_body_def spec_invalid_def)


text \<open>
  Claim C7. On a payload with a non-blank title and a non-blank content, a title of
  exactly 200 trimmed code units is accepted and one of 201 is refused with
  TitleTooLong; a content of exactly 5000 trimmed code units is accepted and one of
  5001 is refused with ContentTooLong.
\<close>

theorem validateNote_length_boundary:
  assumes "get_prop body title_key = JStr t" and "get_prop body content_key = JStr c"
    and "trim t \<noteq> []" and "trim c \<noteq> []"
  shows "(length (trim t) = 200 \<and> length (trim c) \<le> 5000 \<longrightarrow> validateNote body = Inr ())
       \<and> (length (trim t) = 201 \<longrightarrow> validateNote body = Inl TitleTooLong)
       \<and> (length (trim t) \<le> 200 \<and> length (trim c) = 5000 \<longrightarrow> validateNote body = Inr ())
       \<and> (length (trim t) \<le> 200 \<and> length (trim c) = 5001 \<longrightarrow> validateNote body = Inl ContentTooLong)"
  using assms by (simp add: validateNote_strings)

theorem validateNote_length_boundary_witness:
  "validateNote (JObj [(title_key, JStr (replicate 200 0x61)), (content_key, JStr (replicate 5000 0x61))]) = Inr ()
 \<and> validateNote (JObj [(title_key, JStr (replicate 201 0x61)), (content_key, JStr (replicate 5000 0x61))]) = Inl TitleTooLong
 \<and> validateNote (JObj [(title_key, JStr (replicate 200 0x61)), (content_key, JStr (replicate 5001 0x61))]) = Inl ContentTooLong"
  using validateNote_length_boundary
      [of "JObj [(title_key, JStr (replicate 200 0x61)), (content_key, JStr (replicate 5000 0x61))]"
          "replicate 200 0x61" "replicate 5000 0x61"]
    validateNote_length_boundary
      [of "JObj [(title_key, JStr (replicate 201 0x61)), (content_key, JStr (replicate 5000 0x61))]"
          "replicate 201 0x61" "replicate 5000 0x61"]
    validateNote_length_boundary
      [of "JObj [(title_key, JStr (replicate 200 0x61)), (content_key, JStr (replicate 5001 0x61))]"
          "replicate 200 0x61" "replicate 5001 0x61"]
  by simp


section \<open>Creation\<close>

text \<open>
  Claim C1. For every valid title and content, a creation followed by a read of the new
  identifier returns the trimmed values with createdAt equal to updatedAt. The
  constructor reads the clock once for createdAt and once more for updatedAt, so the
  two are equal only when both readings agree (lemma \<open>createNote_then_get\<close>). The
  theorem runs the POST route with the readings 1000 and 1001, a tick of the
  millisecond clock between the two statements, and reads the note back: createdAt
  is 1000 and updatedAt is 1001.
\<close>

theorem createNote_clock_read_twice:
  "post_route (js ''n1'') 1000 1001
     (JObj [(title_key, JStr (js '' a '')), (content_key, JStr (js ''b''))]) []
   = (Inr \<lparr>note_id = js ''n1'', title = js ''a'', content = js ''b'', createdAt = 1000, updatedAt = 1001\<rparr>,
      [\<lparr>note_id = js ''n1'', title = js ''a'', content = js ''b'', createdAt = 1000, updatedAt = 1001\<rparr>])
 \<and> getNoteById (js ''n1'')
      [\<lparr>note_id = js ''n1'', title = js ''a'', content = js ''b'', createdAt = 1000, updatedAt = 1001\<rparr>]
   = (Inr \<lparr>note_id = js ''n1'', title = js ''a'', content = js ''b'', createdAt = 1000, updatedAt = 1001\<rparr>,
      [\<lparr>note_id = js ''n1'', title = js ''a'', content = js ''b'', createdAt = 1000, updatedAt = 1001\<rparr>])
 \<and> createdAt \<lparr>note_id = js ''n1'', title = js ''a'', content = js ''b'', createdAt = 1000, updatedAt = 1001\<rparr>
   \<noteq> updatedAt \<lparr>note_id = js ''n1'', title = js ''a'', content = js ''b'', createdAt = 1000, updatedAt = 1001\<rparr>"
  by (simp add: post_route_def validateNote_def nullish_def createNote_def Note_constructor_def
      getNoteById_def trim_def isWhiteSpace_def Let_def)

section \<open>Updates\<close>

text \<open>
  Claim C10. In an update the existence check comes before the check of the fields:
  for an identifier that no note of the store carries, \<open>updateNote\<close> fails with
  NotFound whatever the fields are, also when neither a title nor a content is given,
  and so does the PUT route on every body; NoFieldsProvided is never the answer there.
\<close>

theorem updateNote_missing_id:
  assumes "\<forall>n \<in> set ns. note_id n \<noteq> i" and "\<not> nullish body"
  shows "updateNote now i ttl cnt ns = (Inl NotFound, ns)
       \<and> updateNote now i JUndefined JUndefined ns = (Inl NotFound, ns)
       \<and> put_route now i body ns = (Inl NotFound, ns)"
proof -
  from assms(1) have none: "find (\<lambda>note. note_id note = i) ns = None"
    by (rule find_none_ids [THEN iffD2])
  have "\<And>a b. updateNote now i a b ns = (Inl NotFound, ns)"
    unfolding updateNote_def none by simp
  with assms(2) show ?thesis
    by (simp add: put_route_def)
qed

theorem updateNote_missing_id_witness:
  "updateNote 7 (js ''n2'') JUndefined JUndefined
     [\<lparr>note_id = js ''n1'', title = js ''a'', content = js ''b'', createdAt = 1, updatedAt = 1\<rparr>]
   = (Inl NotFound,
      [\<lparr>note_id = js ''n1'', title = js ''a'', content = js ''b'', createdAt = 1, updatedAt = 1\<rparr>])
 \<and> put_route 7 (js ''n2'') (JObj [])
     [\<lparr>note_id = js ''n1'', title = js ''a'', content = js ''b'', createdAt = 1, updatedAt = 1\<rparr>]
   = (Inl NotFound,
      [\<lparr>note_id = js ''n1'', title = js ''a'', content = js ''b'', createdAt = 1, updatedAt = 1\<rparr>])"
  using updateNote_missing_id
    [of "[\<lparr>note_id = js ''n1'', title = js ''a'', content = js ''b'', createdAt = 1, updatedAt = 1\<rparr>]"
        "js ''n2''" "JObj []" 7 JUndefined JUndefined]
  by (simp add: nullish_def)

text \<open>
  Claim C5. For the identifier of a note of the store, an update whose payload holds
  neither a title nor a content fails with NoFieldsProvided, whatever other keys the
  payload holds, and the store it leaves is the store it found.
\<close>

theorem updateNote_no_fields:
  assumes "\<exists>n \<in> set ns. note_id n = i"
    and "get_prop body title_key = JUndefined" and "get_prop body content_key = JUndefined"
    and "\<not> nullish body"
  shows "updateNote now i JUndefined JUndefined ns = (Inl NoFieldsProvided, ns)
       \<and> put_route now i body ns = (Inl NoFieldsProvided, ns)"
proof -
  from assms(1) obtain old where "find (\<lambda>note. note_id note = i) ns = Some old"
    using find_Some_exists by metis
  then have "updateNote now i JUndefined JUndefined ns = (Inl NoFieldsProvided, ns)"
    unfolding updateNote_def by simp
  with assms(2-4) show ?thesis
    by (simp add: put_route_def)
qed

theorem updateNote_no_fields_witness:
  "put_route 7 (js ''n1'') (JObj [(js ''color'', JStr (js ''red''))])
     [\<lparr>note_id = js ''n1'', title = js ''a'', content = js ''b'', createdAt = 1, updatedAt = 1\<rparr>]
   = (Inl NoFieldsProvided,
      [\<lparr>note_id = js ''n1'', title = js ''a'', content = js ''b'', createdAt = 1, updatedAt = 1\<rparr>])"
  using updateNote_no_fields
    [of "[\<lparr>note_id = js ''n1'', title = js ''a'', content = js ''b'', createdAt = 1, updatedAt = 1\<rparr>]"
        "js ''n1''" "JObj [(js ''color'', JStr (js ''red''))]" 7]
  by (simp add: nullish_def title_key_def content_key_def)

text \<open>
  Claim C4. A successful update of an existing note applies each of title and content
  that is given (a string, stored trimmed) and leaves the other as it was, leaves the
  identifier and createdAt untouched, and sets updatedAt to the clock reading of the
  update, which differs from the former value whenever the clock reading does. The
  store then answers a read of the identifier with the returned snapshot, and every
  note with another identifier is as before.
\<close>

theorem updateNote_effect:
  assumes "find (\<lambda>note. note_id note = i) ns = Some old"
    and "updateNote now i ttl cnt ns = (Inr snap, ns')"
  shows "title snap = (case ttl of JStr s \<Rightarrow> trim s | _ \<Rightarrow> title old)
       \<and> content snap = (case cnt of JStr s \<Rightarrow> trim s | _ \<Rightarrow> content old)
       \<and> note_id snap = note_id old
       \<and> createdAt snap = createdAt old
       \<and> updatedAt snap = now
       \<and> (now \<noteq> updatedAt old \<longrightarrow> updatedAt snap \<noteq> updatedAt old)
       \<and> getNoteById i ns' = (Inr snap, ns')
       \<and> length ns' = length ns
       \<and> (\<forall>k < length ns. note_id (ns ! k) \<noteq> i \<longrightarrow> ns' ! k = ns ! k)"
proof -
  from updateNote_Inr [OF assms] obtain t c where
    t: "optional_trim_call ttl = Inr t" and c: "optional_trim_call cnt = Inr c"
    and snap: "snap = Note_update now t c old"
    and ns': "ns' = update_first (\<lambda>note. note_id note = i) (Note_update now t c) ns"
    by metis
  from assms(1) have old: "note_id old = i"
    by (metis (mono_tags, lifting) find_Some_iff)
  have "title snap = (case ttl of JStr s \<Rightarrow> trim s | _ \<Rightarrow> title old)"
    unfolding snap title_Note_update by (rule optional_trim_call_case [OF t])
  moreover have "content snap = (case cnt of JStr s \<Rightarrow> trim s | _ \<Rightarrow> content old)"
    unfolding snap content_Note_update by (rule optional_trim_call_case [OF c])
  moreover have "note_id snap = note_id old" "createdAt snap = createdAt old" "updatedAt snap = now"
    unfolding snap by simp_all
  moreover have "find (\<lambda>note. note_id note = i) ns' = Some snap"
    unfolding ns' snap using old by (intro find_update_first [OF assms(1)]) simp
  then have "getNoteById i ns' = (Inr snap, ns')"
    unfolding getNoteById_def by simp
  moreover have "length ns' = length ns"
    unfolding ns' by simp
  moreover have "\<forall>k < length ns. note_id (ns ! k) \<noteq> i \<longrightarrow> ns' ! k = ns ! k"
    unfolding ns' by (intro allI impI nth_update_first)
  ultimately show ?thesis
    by (simp only: simp_thms)
qed

theorem updateNote_effect_witness:
  "updateNote 9 (js ''n1'') (JStr (js '' t '')) JUndefined
     [\<lparr>note_id = js ''n1'', title = js ''a'', content = js ''b'', createdAt = 1, updatedAt = 1\<rparr>]
   = (Inr \<lparr>note_id = js ''n1'', title = js ''t'', content = js ''b'', createdAt = 1, updatedAt = 9\<rparr>,
      [\<lparr>note_id = js ''n1'', title = js ''t'', content = js ''b'', createdAt = 1, updatedAt = 9\<rparr>])
 \<and> getNoteById (js ''n1'')
      [\<lparr>note_id = js ''n1'', title = js ''t'', content = js ''b'', createdAt = 1, updatedAt = 9\<rparr>]
   = (Inr \<lparr>note_id = js ''n1'', title = js ''t'', content = js ''b'', createdAt = 1, updatedAt = 9\<rparr>,
      [\<lparr>note_id = js ''n1'', title = js ''t'', content = js ''b'', createdAt = 1, updatedAt = 9\<rparr>])"
proof -
  have upd: "updateNote 9 (js ''n1'') (JStr (js '' t '')) JUndefined
     [\<lparr>note_id = js ''n1'', title = js ''a'', content = js ''b'', createdAt = 1, updatedAt = 1\<rparr>]
   = (Inr \<lparr>note_id = js ''n1'', title = js ''t'', content = js ''b'', createdAt = 1, updatedAt = 9\<rparr>,
      [\<lparr>note_id = js ''n1'', title = js ''t'', content = js ''b'', createdAt = 1, updatedAt = 9\<rparr>])"
    by (simp add: updateNote_def Note_update_def trim_def isWhiteSpace_def)
  have fnd: "find (\<lambda>note. note_id note = js ''n1'')
     [\<lparr>note_id = js ''n1'', title = js ''a'', content = js ''b'', createdAt = 1, updatedAt = 1\<rparr>]
   = Some \<lparr>note_id = js ''n1'', title = js ''a'', content = js ''b'', createdAt = 1, updatedAt = 1\<rparr>"
    by simp
  from updateNote_effect [OF fnd upd] upd show ?thesis
    by (simp only: simp_thms)
qed

text \<open>
  Claim C2. In every reachable store the title and the content of every note are
  neither empty nor made of white space only, and every successful update through the
  PUT route keeps it so. The guard of \<open>updateNote\<close> tests the fields before they
  are trimmed and only refuses when both are falsy, while \<open>Note.update\<close> assigns
  every field that is not undefined. The theorem creates a note through the POST
  route and then runs the PUT route on it twice: a title of three spaces is stored as
  the empty title, and so is an empty title sent together with a content.
\<close>

theorem put_route_blank_title:
  "post_route (js ''n1'') 1 1
     (JObj [(title_key, JStr (js ''a'')), (content_key, JStr (js ''b''))]) []
   = (Inr \<lparr>note_id = js ''n1'', title = js ''a'', content = js ''b'', createdAt = 1, updatedAt = 1\<rparr>,
      [\<lparr>note_id = js ''n1'', title = js ''a'', content = js ''b'', createdAt = 1, updatedAt = 1\<rparr>])
 \<and> put_route 2 (js ''n1'') (JObj [(title_key, JStr (js ''   ''))])
      [\<lparr>note_id = js ''n1'', title = js ''a'', content = js ''b'', createdAt = 1, updatedAt = 1\<rparr>]
   = (Inr \<lparr>note_id = js ''n1'', title = [], content = js ''b'', createdAt = 1, updatedAt = 2\<rparr>,
      [\<lparr>note_id = js ''n1'', title = [], content = js ''b'', createdAt = 1, updatedAt = 2\<rparr>])
 \<and> put_route 2 (js ''n1'') (JObj [(title_key, JStr []), (content_key, JStr (js ''c''))])
      [\<lparr>note_id = js ''n1'', title = js ''a'', content = js ''b'', createdAt = 1, updatedAt = 1\<rparr>]
   = (Inr \<lparr>note_id = js ''n1'', title = [], content = js ''c'', createdAt = 1, updatedAt = 2\<rparr>,
      [\<lparr>note_id = js ''n1'', title = [], content = js ''c'', createdAt = 1, updatedAt = 2\<rparr>])"
  by (simp add: post_route_def put_route_def validateNote_def nullish_def createNote_def
      updateNote_def Note_constructor_def Note_update_def trim_def isWhiteSpace_def Let_def)




section \<open>Deletion\<close>

text \<open>
  Claim C8. In every store reached from the empty one by requests whose creations draw
  unique identifiers, after a successful deletion of an identifier every later read of
  it fails with NotFound and a second deletion of it fails with NotFound, after any
  sequence of further requests in which no creation draws that identifier again; both
  failures leave the store as it is.
\<close>

theorem delete_then_NotFound:
  assumes "fresh_uuids rs0 []"
    and "deleteNote i (run rs0 []) = (Inr d, ns')"
    and "\<forall>r \<in> set rs. \<not> draws r i"
  shows "getNoteById i (run rs ns') = (Inl NotFound, run rs ns')
       \<and> deleteNote i (run rs ns') = (Inl NotFound, run rs ns')"
proof -
  let ?P = "\<lambda>note. note_id note = i"
  let ?ns = "run rs0 []"
  from assms(1) have dist: "distinct (map note_id ?ns)"
    by (intro run_ids_distinct) simp_all
  from assms(2) have found: "findIndex ?P ?ns \<noteq> - 1"
    by (auto simp: deleteNote_def Let_def split: if_splits)
  with assms(2) have ns': "ns' = snd (splice1 (nat (findIndex ?P ?ns)) ?ns)"
    by (auto simp: deleteNote_def Let_def split: prod.splits)
  have "\<forall>n \<in> set ns'. note_id n \<noteq> i"
    unfolding ns' by (rule splice1_after_findIndex [OF dist found])
  then have absent: "\<forall>n \<in> set (run rs ns'). note_id n \<noteq> i"
    using assms(3) by (rule run_keeps_absent)
  then have "find ?P (run rs ns') = None"
    by (rule find_none_ids [THEN iffD2])
  then have "getNoteById i (run rs ns') = (Inl NotFound, run rs ns')"
    unfolding getNoteById_def by simp
  moreover from absent have "findIndex ?P (run rs ns') = - 1"
    by (rule findIndex_none [THEN iffD2])
  then have "deleteNote i (run rs ns') = (Inl NotFound, run rs ns')"
    unfolding deleteNote_def by simp
  ultimately show ?thesis by (simp only: simp_thms)
qed

theorem delete_then_NotFound_witness:
  "getNoteById (js ''n1'')
     (run [CreateNote (js ''n3'') 5 5 (JStr (js ''c'')) (JStr (js ''d'')), DeleteNote (js ''n1'')]
        [\<lparr>note_id = js ''n2'', title = js ''x'', content = js ''y'', createdAt = 2, updatedAt = 2\<rparr>])
   = (Inl NotFound,
      run [CreateNote (js ''n3'') 5 5 (JStr (js ''c'')) (JStr (js ''d'')), DeleteNote (js ''n1'')]
        [\<lparr>note_id = js ''n2'', title = js ''x'', content = js ''y'', createdAt = 2, updatedAt = 2\<rparr>])
 \<and> deleteNote (js ''n1'')
     (run [CreateNote (js ''n3'') 5 5 (JStr (js ''c'')) (JStr (js ''d'')), DeleteNote (js ''n1'')]
        [\<lparr>note_id = js ''n2'', title = js ''x'', content = js ''y'', createdAt = 2, updatedAt = 2\<rparr>])
   = (Inl NotFound,
      run [CreateNote (js ''n3'') 5 5 (JStr (js ''c'')) (JStr (js ''d'')), DeleteNote (js ''n1'')]
        [\<lparr>note_id = js ''n2'', title = js ''x'', content = js ''y'', createdAt = 2, updatedAt = 2\<rparr>])"
proof -
  let ?rs0 = "[CreateNote (js ''n1'') 1 1 (JStr (js ''a'')) (JStr (js ''b'')),
               CreateNote (js ''n2'') 2 2 (JStr (js ''x'')) (JStr (js ''y''))]"
  have r0: "run ?rs0 [] =
     [\<lparr>note_id = js ''n1'', title = js ''a'', content = js ''b'', createdAt = 1, updatedAt = 1\<rparr>,
      \<lparr>note_id = js ''n2'', title = js ''x'', content = js ''y'', createdAt = 2, updatedAt = 2\<rparr>]"
    by (simp add: createNote_def Note_constructor_def Let_def trim_def isWhiteSpace_def)
  have fresh: "fresh_uuids ?rs0 []"
    by (simp add: createNote_def Note_constructor_def Let_def trim_def isWhiteSpace_def)
  have del: "deleteNote (js ''n1'') (run ?rs0 [])
   = (Inr \<lparr>note_id = js ''n1'', title = js ''a'', content = js ''b'', createdAt = 1, updatedAt = 1\<rparr>,
      [\<lparr>note_id = js ''n2'', title = js ''x'', content = js ''y'', createdAt = 2, updatedAt = 2\<rparr>])"
    unfolding r0 by (simp add: deleteNote_def splice1_def)
  have nodraw: "\<forall>r \<in> set [CreateNote (js ''n3'') 5 5 (JStr (js ''c'')) (JStr (js ''d'')),
                          DeleteNote (js ''n1'')]. \<not> draws r (js ''n1'')"
    by simp
  from delete_then_NotFound [OF fresh del nodraw] show ?thesis .
qed

section \<open>Returned values\<close>

text \<open>
  Claim C9. Every value an operation of the store returns is a snapshot decoupled from
  the record the store keeps: an assignment to it changes nothing a later read
  observes. \<open>getAllNotes\<close>, \<open>getNoteById\<close>, \<open>updateNote\<close> and \<open>deleteNote\<close>
  return an object made by \<open>toJSON\<close> (lemma \<open>returned_snapshot_decoupled\<close>), but
  \<open>createNote\<close> returns the very object it pushed onto the array. The theorem
  creates a note in the empty memory, assigns a new title through the returned
  reference, and reads the note back by its identifier: the read shows the new title.
\<close>

theorem createNote_returns_live_object:
  "createNote_ref (js ''n1'') 1 1 (JStr (js ''a'')) (JStr (js ''b'')) \<lparr>objects = [], this_notes = []\<rparr>
   = (Inr 0,
      \<lparr>objects = [\<lparr>note_id = js ''n1'', title = js ''a'', content = js ''b'', createdAt = 1, updatedAt = 1\<rparr>],
       this_notes = [0]\<rparr>)
 \<and> getNoteById_ref (js ''n1'')
      (mutate 0 (assign_title (js ''x''))
         \<lparr>objects = [\<lparr>note_id = js ''n1'', title = js ''a'', content = js ''b'', createdAt = 1, updatedAt = 1\<rparr>],
          this_notes = [0]\<rparr>)
   = (Inr 1,
      \<lparr>objects = [\<lparr>note_id = js ''n1'', title = js ''x'', content = js ''b'', createdAt = 1, updatedAt = 1\<rparr>,
                  \<lparr>note_id = js ''n1'', title = js ''x'', content = js ''b'', createdAt = 1, updatedAt = 1\<rparr>],
       this_notes = [0]\<rparr>)"
  by (simp add: createNote_ref_def alloc_def Note_constructor_def getNoteById_ref_def mutate_def
      deref_def toJSON_ref_def assign_title_def trim_def isWhiteSpace_def)

theorem createNote_returns_live_object_witness:
  "title (deref (snd (getNoteById_ref (js ''n1'')
      (mutate 0 (assign_title (js ''x''))
         (snd (createNote_ref (js ''n1'') 1 1 (JStr (js ''a'')) (JStr (js ''b''))
                 \<lparr>objects = [], this_notes = []\<rparr>))))) 1)
   = js ''x''"
  using createNote_returns_live_object by (simp add: deref_def)

end
